theory Spec2Isabelle
  imports Complex_Main
begin

section \<open>JavaScript values used by the alignment scorer\<close>

text \<open>
  The scorer (\<^verbatim>\<open>src/js/alignment-scorer.js\<close>) computes with JavaScript numbers and strings.

  Numbers. A JavaScript number is a finite double, one of the two infinities, or NaN.
  Every finite double is a rational, so a finite number is modelled as \<open>Fin q\<close> with
  \<open>q :: rat\<close> and arithmetic on finite numbers is exact rational arithmetic: rounding of
  doubles and the sign of zero are not modelled. The counts the scorer divides are small
  non-negative integers and its default parameters are \<open>2\<close>, \<open>-1\<close>, \<open>-2\<close> and
  \<open>-0.5\<close>, which doubles represent exactly. Division by zero, NaN and the infinities
  follow IEEE 754 as JavaScript implements it.

  Strings. A sequence is a \<open>string\<close>, one \<open>char\<close> per code unit; the characters of the
  alignments the scorer reads are ASCII, and \<open>toUpperCase\<close> is modelled on that range.
\<close>

datatype jsnum = Fin rat | PosInf | NegInf | NaN

fun js_add :: "jsnum \<Rightarrow> jsnum \<Rightarrow> jsnum" where
  "js_add (Fin a) (Fin b) = Fin (a + b)"
| "js_add NaN y = NaN"
| "js_add x NaN = NaN"
| "js_add PosInf NegInf = NaN"
| "js_add NegInf PosInf = NaN"
| "js_add PosInf y = PosInf"
| "js_add x PosInf = PosInf"
| "js_add NegInf y = NegInf"
| "js_add x NegInf = NegInf"

fun js_neg :: "jsnum \<Rightarrow> jsnum" where
  "js_neg (Fin a) = Fin (- a)"
| "js_neg PosInf = NegInf"
| "js_neg NegInf = PosInf"
| "js_neg NaN = NaN"

fun js_mul :: "jsnum \<Rightarrow> jsnum \<Rightarrow> jsnum" where
  "js_mul (Fin a) (Fin b) = Fin (a * b)"
| "js_mul NaN y = NaN"
| "js_mul x NaN = NaN"
| "js_mul (Fin a) y = (if a = 0 then NaN else if 0 < a then y else js_neg y)"
| "js_mul x (Fin b) = (if b = 0 then NaN else if 0 < b then x else js_neg x)"
| "js_mul PosInf y = y"
| "js_mul NegInf y = js_neg y"

fun js_div :: "jsnum \<Rightarrow> jsnum \<Rightarrow> jsnum" where
  "js_div (Fin a) (Fin b) =
     (if b = 0 then (if a = 0 then NaN else if 0 < a then PosInf else NegInf)
      else Fin (a / b))"
| "js_div NaN y = NaN"
| "js_div x NaN = NaN"
| "js_div (Fin a) y = Fin 0"
| "js_div x (Fin b) = (if 0 \<le> b then x else js_neg x)"
| "js_div x y = NaN"

text \<open>\<^verbatim>\<open>x >= y\<close>: false as soon as one side is NaN.\<close>

fun js_ge :: "jsnum \<Rightarrow> jsnum \<Rightarrow> bool" where
  "js_ge (Fin a) (Fin b) = (b \<le> a)"
| "js_ge NaN y = False"
| "js_ge x NaN = False"
| "js_ge PosInf y = True"
| "js_ge x NegInf = True"
| "js_ge x y = False"

text \<open>
  \<^verbatim>\<open>parseFloat(x.toFixed(2))\<close>. \<^verbatim>\<open>toFixed(2)\<close> picks the integer \<open>n\<close> with \<open>n / 100\<close>
  closest to \<open>|x|\<close>, the larger one on a tie, and puts the sign back; on NaN and the
  infinities it prints \<^verbatim>\<open>"NaN"\<close>, \<^verbatim>\<open>"Infinity"\<close>, \<^verbatim>\<open>"-Infinity"\<close>, which
  \<^verbatim>\<open>parseFloat\<close> reads back as the same value.
\<close>

definition round2 :: "rat \<Rightarrow> rat" where
  "round2 x =
     (if x < 0 then - (of_int \<lfloor>(- x) * 100 + 1 / 2\<rfloor> / 100)
      else of_int \<lfloor>x * 100 + 1 / 2\<rfloor> / 100)"

fun toFixed2 :: "jsnum \<Rightarrow> jsnum" where
  "toFixed2 (Fin x) = Fin (round2 x)"
| "toFixed2 PosInf = PosInf"
| "toFixed2 NegInf = NegInf"
| "toFixed2 NaN = NaN"

definition of_count :: "nat \<Rightarrow> jsnum" where
  "of_count n = Fin (of_nat n)"

text \<open>
  \<^verbatim>\<open>s[i]\<close> is \<^verbatim>\<open>undefined\<close> outside the string, and calling \<^verbatim>\<open>toUpperCase\<close> on it
  throws a TypeError; \<open>str_index s i\<close> models \<^verbatim>\<open>s[i]\<close> and is \<open>None\<close> there.
\<close>

definition str_index :: "string \<Rightarrow> nat \<Rightarrow> char option" where
  "str_index s i = (if i < length s then Some (s ! i) else None)"

definition toUpperCase :: "char \<Rightarrow> char" where
  "toUpperCase c =
     (let n = (of_char c :: nat) in if 97 \<le> n \<and> n \<le> 122 then char_of (n - 32) else c)"

text \<open>
  The source throws \<^verbatim>\<open>new Error(message)\<close>; the message tells the errors apart. The
  TypeError of an out-of-range character read is kept as a separate value.
\<close>

datatype error = Error string | TypeError

definition LengthMismatch :: error where
  "LengthMismatch = Error ''Sequences must be of equal length for alignment scoring''"

definition MinimumSequences :: error where
  "MinimumSequences = Error ''Need at least 2 sequences for MSA scoring''"

definition MSALengthMismatch :: error where
  "MSALengthMismatch = Error ''All sequences must be same length in MSA''"

section \<open>The scorer instance and its parameters\<close>

record AlignmentScorer =
  matchScore :: jsnum
  mismatchScore :: jsnum
  gapPenalty :: jsnum
  gapExtensionPenalty :: jsnum

text \<open>The constructor: default scoring parameters for DNA.\<close>

definition constructor :: AlignmentScorer where
  "constructor =
     \<lparr>matchScore = Fin 2, mismatchScore = Fin (- 1), gapPenalty = Fin (- 2),
      gapExtensionPenalty = Fin (- (1 / 2))\<rparr>"

text \<open>
  The argument of \<^verbatim>\<open>setParameters\<close>: an object in which each of the four keys is
  either present with a value or \<^verbatim>\<open>undefined\<close> (\<open>None\<close>).
\<close>

record params =
  p_matchScore :: "jsnum option"
  p_mismatchScore :: "jsnum option"
  p_gapPenalty :: "jsnum option"
  p_gapExtensionPenalty :: "jsnum option"

definition setParameters :: "AlignmentScorer \<Rightarrow> params \<Rightarrow> AlignmentScorer" where
  "setParameters this ps =
     (let this1 = (case p_matchScore ps of Some v \<Rightarrow> this\<lparr>matchScore := v\<rparr> | None \<Rightarrow> this);
          this2 = (case p_mismatchScore ps of Some v \<Rightarrow> this1\<lparr>mismatchScore := v\<rparr>
                   | None \<Rightarrow> this1);
          this3 = (case p_gapPenalty ps of Some v \<Rightarrow> this2\<lparr>gapPenalty := v\<rparr> | None \<Rightarrow> this2)
      in (case p_gapExtensionPenalty ps of Some v \<Rightarrow> this3\<lparr>gapExtensionPenalty := v\<rparr>
          | None \<Rightarrow> this3))"

section \<open>Pairwise scoring\<close>

record PairwiseScore =
  score :: jsnum
  matches :: nat
  mismatches :: nat
  gaps :: nat
  gapRuns :: nat
  identity :: jsnum
  similarity :: jsnum
  length_ps :: nat

text \<open>
  The local variables of \<^verbatim>\<open>calculatePairwiseScore\<close> (\<^verbatim>\<open>matches\<close>, \<^verbatim>\<open>mismatches\<close>,
  \<^verbatim>\<open>gaps\<close>, \<^verbatim>\<open>score\<close>, \<^verbatim>\<open>gapRuns\<close>, \<^verbatim>\<open>inGap\<close>), suffixed to keep them apart
  from the fields of the result.
\<close>

record scan =
  matches_v :: nat
  mismatches_v :: nat
  gaps_v :: nat
  score_v :: jsnum
  gapRuns_v :: nat
  inGap :: bool

definition scan_init :: scan where
  "scan_init =
     \<lparr>matches_v = 0, mismatches_v = 0, gaps_v = 0, score_v = Fin 0, gapRuns_v = 0,
      inGap = False\<rparr>"

text \<open>The body of the loop, on the two upper-cased characters of one column.\<close>

definition score_column :: "AlignmentScorer \<Rightarrow> char \<Rightarrow> char \<Rightarrow> scan \<Rightarrow> scan" where
  "score_column this char1 char2 st =
     (if char1 = CHR ''-'' \<or> char2 = CHR ''-'' then
        (let st1 = st\<lparr>gaps_v := gaps_v st + 1\<rparr> in
         if \<not> inGap st1 then
           st1\<lparr>score_v := js_add (score_v st1) (gapPenalty this),
               gapRuns_v := gapRuns_v st1 + 1, inGap := True\<rparr>
         else st1\<lparr>score_v := js_add (score_v st1) (gapExtensionPenalty this)\<rparr>)
      else
        (let st1 = st\<lparr>inGap := False\<rparr> in
         if char1 = char2 then
           st1\<lparr>matches_v := matches_v st1 + 1,
               score_v := js_add (score_v st1) (matchScore this)\<rparr>
         else
           st1\<lparr>mismatches_v := mismatches_v st1 + 1,
               score_v := js_add (score_v st1) (mismatchScore this)\<rparr>))"

function score_loop ::
  "AlignmentScorer \<Rightarrow> string \<Rightarrow> string \<Rightarrow> nat \<Rightarrow> scan \<Rightarrow> error + scan" where
  "score_loop this seq1 seq2 i st =
     (if i < length seq1 then
        (case (str_index seq1 i, str_index seq2 i) of
           (Some c1, Some c2) \<Rightarrow>
             score_loop this seq1 seq2 (i + 1)
               (score_column this (toUpperCase c1) (toUpperCase c2) st)
         | _ \<Rightarrow> Inl TypeError)
      else Inr st)"
  by pat_completeness auto
termination
  by (relation "measure (\<lambda>(this, seq1, seq2, i, st). length seq1 - i)") auto

declare score_loop.simps [simp del]

definition calculatePairwiseScore ::
  "AlignmentScorer \<Rightarrow> string \<Rightarrow> string \<Rightarrow> error + PairwiseScore" where
  "calculatePairwiseScore this seq1 seq2 =
     (if length seq1 \<noteq> length seq2 then Inl LengthMismatch
      else
        (case score_loop this seq1 seq2 0 scan_init of
           Inl e \<Rightarrow> Inl e
         | Inr st \<Rightarrow>
             (let identity_v =
                    js_mul (js_div (of_count (matches_v st))
                              (of_count (matches_v st + mismatches_v st + gaps_v st)))
                      (Fin 100);
                  similarity_v =
                    js_mul (js_div (of_count (matches_v st))
                              (Fin (of_int (int (length seq1) - int (gaps_v st)))))
                      (Fin 100)
              in Inr \<lparr>score = score_v st, matches = matches_v st,
                      mismatches = mismatches_v st, gaps = gaps_v st,
                      gapRuns = gapRuns_v st, identity = toFixed2 identity_v,
                      similarity = toFixed2 similarity_v, length_ps = length seq1\<rparr>)))"

section \<open>FASTA parsing\<close>

record SequenceRecord =
  id_rec :: string
  sequence :: string

text \<open>
  \<^verbatim>\<open>String.prototype.trim\<close> strips white space and line terminators from both ends;
  among 8-bit code units these are TAB, LF, VT, FF, CR, SP and NBSP.
\<close>

definition js_whitespace :: "char \<Rightarrow> bool" where
  "js_whitespace c \<longleftrightarrow> (of_char c :: nat) \<in> set [9, 10, 11, 12, 13, 32, 160]"

definition trim :: "string \<Rightarrow> string" where
  "trim s = rev (dropWhile js_whitespace (rev (dropWhile js_whitespace s)))"

text \<open>\<^verbatim>\<open>fastaContent.split("\n")\<close>: the pieces between line feeds, at least one piece.\<close>

fun split_lines :: "string \<Rightarrow> string list" where
  "split_lines [] = [[]]"
| "split_lines (c # cs) =
     (if c = CHR 0x0A then [] # split_lines cs
      else (case split_lines cs of [] \<Rightarrow> [[c]] | l # ls \<Rightarrow> (c # l) # ls))"

definition startsWith_gt :: "string \<Rightarrow> bool" where
  "startsWith_gt line = (case line of [] \<Rightarrow> False | c # cs \<Rightarrow> c = CHR ''>'')"

text \<open>
  The loop over the lines, with the two variables it updates: the array \<^verbatim>\<open>sequences\<close>
  and \<^verbatim>\<open>currentSeq\<close> (\<open>None\<close> for \<^verbatim>\<open>null\<close>).
\<close>

fun parse_loop ::
  "string list \<Rightarrow> SequenceRecord list \<Rightarrow> SequenceRecord option \<Rightarrow>
   SequenceRecord list \<times> SequenceRecord option" where
  "parse_loop [] sequences currentSeq = (sequences, currentSeq)"
| "parse_loop (l # ls) sequences currentSeq =
     (let line = trim l in
      if startsWith_gt line then
        parse_loop ls
          (case currentSeq of Some c \<Rightarrow> sequences @ [c] | None \<Rightarrow> sequences)
          (Some \<lparr>id_rec = drop 1 line, sequence = []\<rparr>)
      else if line \<noteq> [] \<and> currentSeq \<noteq> None then
        parse_loop ls sequences
          (map_option (\<lambda>c. c\<lparr>sequence := sequence c @ line\<rparr>) currentSeq)
      else parse_loop ls sequences currentSeq)"

definition parseFASTA :: "string \<Rightarrow> SequenceRecord list" where
  "parseFASTA fastaContent =
     (case parse_loop (split_lines fastaContent) [] None of
        (sequences, currentSeq) \<Rightarrow>
          (case currentSeq of Some c \<Rightarrow> sequences @ [c] | None \<Rightarrow> sequences))"

section \<open>Statistics of a multiple sequence alignment\<close>

text \<open>The loop that checks that all sequences have the same length.\<close>

fun check_lengths :: "SequenceRecord list \<Rightarrow> nat \<Rightarrow> error + unit" where
  "check_lengths [] alignmentLength = Inr ()"
| "check_lengths (seq # seqs) alignmentLength =
     (if length (sequence seq) \<noteq> alignmentLength then Inl MSALengthMismatch
      else check_lengths seqs alignmentLength)"

text \<open>
  \<^verbatim>\<open>sequences.map((seq) => seq.sequence[pos].toUpperCase())\<close>: the upper-cased
  characters of column \<open>pos\<close>, or the TypeError of a sequence that is too short.
\<close>

fun column_chars :: "SequenceRecord list \<Rightarrow> nat \<Rightarrow> error + char list" where
  "column_chars [] pos = Inr []"
| "column_chars (seq # seqs) pos =
     (case str_index (sequence seq) pos of
        None \<Rightarrow> Inl TypeError
      | Some c \<Rightarrow>
          (case column_chars seqs pos of
             Inl e \<Rightarrow> Inl e
           | Inr cs \<Rightarrow> Inr (toUpperCase c # cs)))"

text \<open>
  The test of one column: \<^verbatim>\<open>uniqueChars\<close> is the \<^verbatim>\<open>Set\<close> of the characters of the
  column other than \<^verbatim>\<open>"-"\<close>.
\<close>

definition column_conserved :: "SequenceRecord list \<Rightarrow> nat \<Rightarrow> error + bool" where
  "column_conserved sequences pos =
     (case column_chars sequences pos of
        Inl e \<Rightarrow> Inl e
      | Inr chars \<Rightarrow>
          (let uniqueChars = set (filter (\<lambda>c. c \<noteq> CHR ''-'') chars)
           in Inr (card uniqueChars = 1 \<and> \<not> (CHR ''-'' \<in> uniqueChars))))"

function conservation_loop ::
  "SequenceRecord list \<Rightarrow> nat \<Rightarrow> nat \<Rightarrow> nat \<Rightarrow> error + nat" where
  "conservation_loop sequences alignmentLength pos conservedPositions =
     (if pos < alignmentLength then
        (case column_conserved sequences pos of
           Inl e \<Rightarrow> Inl e
         | Inr b \<Rightarrow>
             conservation_loop sequences alignmentLength (pos + 1)
               (if b then conservedPositions + 1 else conservedPositions))
      else Inr conservedPositions)"
  by pat_completeness auto
termination
  by (relation "measure (\<lambda>(sequences, alignmentLength, pos, c). alignmentLength - pos)") auto

declare conservation_loop.simps [simp del]

text \<open>
  The two nested loops over the pairs; the state is \<^verbatim>\<open>pairwiseScores\<close> and
  \<^verbatim>\<open>totalScore\<close>. \<^verbatim>\<open>sequences[i]\<close> is read only for \<open>i < numSequences\<close>.
\<close>

function pair_loop_j ::
  "AlignmentScorer \<Rightarrow> SequenceRecord list \<Rightarrow> nat \<Rightarrow> nat \<Rightarrow> nat \<Rightarrow>
   PairwiseScore list \<times> jsnum \<Rightarrow> error + PairwiseScore list \<times> jsnum" where
  "pair_loop_j this sequences numSequences i j st =
     (if j < numSequences then
        (case calculatePairwiseScore this (sequence (sequences ! i)) (sequence (sequences ! j)) of
           Inl e \<Rightarrow> Inl e
         | Inr pairScore \<Rightarrow>
             pair_loop_j this sequences numSequences i (j + 1)
               (fst st @ [pairScore], js_add (snd st) (score pairScore)))
      else Inr st)"
  by pat_completeness auto
termination
  by (relation "measure (\<lambda>(this, sequences, numSequences, i, j, st). numSequences - j)") auto

declare pair_loop_j.simps [simp del]

function pair_loop_i ::
  "AlignmentScorer \<Rightarrow> SequenceRecord list \<Rightarrow> nat \<Rightarrow> nat \<Rightarrow>
   PairwiseScore list \<times> jsnum \<Rightarrow> error + PairwiseScore list \<times> jsnum" where
  "pair_loop_i this sequences numSequences i st =
     (if i < numSequences then
        (case pair_loop_j this sequences numSequences i (i + 1) st of
           Inl e \<Rightarrow> Inl e
         | Inr st' \<Rightarrow> pair_loop_i this sequences numSequences (i + 1) st')
      else Inr st)"
  by pat_completeness auto
termination
  by (relation "measure (\<lambda>(this, sequences, numSequences, i, st). numSequences - i)") auto

declare pair_loop_i.simps [simp del]

record MSAStats =
  numSequences :: nat
  alignmentLength :: nat
  conservedPositions :: nat
  conservation :: jsnum
  averageScore :: jsnum
  averageIdentity :: jsnum
  pairwiseScores :: "PairwiseScore list"
  totalPairs :: nat

definition calculateMSAStats ::
  "AlignmentScorer \<Rightarrow> SequenceRecord list \<Rightarrow> error + MSAStats" where
  "calculateMSAStats this sequences =
     (if length sequences < 2 then Inl MinimumSequences
      else
        (let alignmentLength_v = length (sequence (sequences ! 0));
             numSequences_v = length sequences
         in case check_lengths sequences alignmentLength_v of
              Inl e \<Rightarrow> Inl e
            | Inr u \<Rightarrow>
                (case conservation_loop sequences alignmentLength_v 0 0 of
                   Inl e \<Rightarrow> Inl e
                 | Inr conservedPositions_v \<Rightarrow>
                     (case pair_loop_i this sequences numSequences_v 0 ([], Fin 0) of
                        Inl e \<Rightarrow> Inl e
                      | Inr (pairwiseScores_v, totalScore) \<Rightarrow>
                          (let avgIdentity =
                                 js_div
                                   (foldl (\<lambda>sum ps. js_add sum (identity ps)) (Fin 0)
                                      pairwiseScores_v)
                                   (of_count (length pairwiseScores_v));
                               avgScore = js_div totalScore (of_count (length pairwiseScores_v));
                               conservation_v =
                                 js_mul
                                   (js_div (of_count conservedPositions_v)
                                      (of_count alignmentLength_v))
                                   (Fin 100)
                           in Inr \<lparr>numSequences = numSequences_v,
                                   alignmentLength = alignmentLength_v,
                                   conservedPositions = conservedPositions_v,
                                   conservation = toFixed2 conservation_v,
                                   averageScore = toFixed2 avgScore,
                                   averageIdentity = toFixed2 avgIdentity,
                                   pairwiseScores = pairwiseScores_v,
                                   totalPairs = length pairwiseScores_v\<rparr>)))))"

section \<open>Quality classification\<close>

definition getQualityColor :: "jsnum \<Rightarrow> string" where
  "getQualityColor identity_v =
     (if js_ge identity_v (Fin 80) then ''#28a745''
      else if js_ge identity_v (Fin 60) then ''#ffc107''
      else if js_ge identity_v (Fin 40) then ''#fd7e14''
      else ''#dc3545'')"

definition getQualityLabel :: "jsnum \<Rightarrow> string" where
  "getQualityLabel identity_v =
     (if js_ge identity_v (Fin 80) then ''Excellent''
      else if js_ge identity_v (Fin 60) then ''Good''
      else if js_ge identity_v (Fin 40) then ''Fair''
      else ''Poor'')"

section \<open>The invariant of the column scan\<close>

text \<open>
  After \<open>i\<close> columns the three counters add up to \<open>i\<close>, there are no more gap runs than
  gap columns, there is a run exactly when there is a gap column, and the flag \<open>inGap\<close> is
  set only after a run has been opened.
\<close>

definition scan_inv :: "nat \<Rightarrow> scan \<Rightarrow> bool" where
  "scan_inv i st \<longleftrightarrow>
     matches_v st + mismatches_v st + gaps_v st = i \<and> gapRuns_v st \<le> gaps_v st \<and>
     (gapRuns_v st = 0 \<longleftrightarrow> gaps_v st = 0) \<and> (inGap st \<longrightarrow> 0 < gapRuns_v st)"

section \<open>Reference description of FASTA parsing\<close>

text \<open>
  A header line is a line whose trimmed content starts with \<^verbatim>\<open>>\<close>. \<open>spec_records clean\<close>
  is the description of the parser in the specification: one record per header line, in
  the order of the lines, whose sequence is the concatenation of its non-header lines (the
  lines up to the next header), each cleaned by \<open>clean\<close>. Cleaning is \<open>trim\<close>, or
  \<open>strip_ws\<close>, which removes every white-space character.
\<close>

definition is_header :: "string \<Rightarrow> bool" where
  "is_header l = startsWith_gt (trim l)"

definition strip_ws :: "string \<Rightarrow> string" where
  "strip_ws s = filter (\<lambda>c. \<not> js_whitespace c) s"

fun spec_records :: "(string \<Rightarrow> string) \<Rightarrow> string list \<Rightarrow> SequenceRecord list" where
  "spec_records clean [] = []"
| "spec_records clean (l # ls) =
     (if is_header l then
        \<lparr>id_rec = drop 1 (trim l),
         sequence = concat (map clean (takeWhile (\<lambda>m. \<not> is_header m) ls))\<rparr> # spec_records clean ls
      else spec_records clean ls)"

text \<open>
  A well-formed input: every line that is not a header consists, between its ends, of
  sequence characters only, with no white space inside.
\<close>

definition well_formed :: "string \<Rightarrow> bool" where
  "well_formed t \<longleftrightarrow>
     list_all (\<lambda>l. is_header l \<or> list_all (\<lambda>c. \<not> js_whitespace c) (trim l)) (split_lines t)"

text \<open>What \<^verbatim>\<open>parseFASTA\<close> does after its loop: the record in progress is appended.\<close>

definition finish_parse ::
  "SequenceRecord list \<times> SequenceRecord option \<Rightarrow> SequenceRecord list" where
  "finish_parse st = (case snd st of Some c \<Rightarrow> fst st @ [c] | None \<Rightarrow> fst st)"

section \<open>Reference descriptions for the MSA statistics\<close>

text \<open>
  The index pairs \<open>(i, j)\<close> with \<open>i < j < n\<close>, by ascending \<open>i\<close> and then ascending
  \<open>j\<close>; \<open>pair_before\<close> is that order.
\<close>

definition index_pairs :: "nat \<Rightarrow> (nat \<times> nat) list" where
  "index_pairs n = concat (map (\<lambda>i. map (Pair i) [Suc i..<n]) [0..<n])"

definition pair_before :: "nat \<times> nat \<Rightarrow> nat \<times> nat \<Rightarrow> bool" where
  "pair_before p q \<longleftrightarrow> fst p < fst q \<or> (fst p = fst q \<and> snd p < snd q)"

text \<open>
  The set of the distinct upper-cased characters other than the gap character in column
  \<open>p\<close> of the records.
\<close>

definition nongap_chars :: "SequenceRecord list \<Rightarrow> nat \<Rightarrow> char set" where
  "nongap_chars rs p = (\<lambda>r. toUpperCase (sequence r ! p)) ` set rs - {CHR ''-''}"

section \<open>Properties of pairwise scoring\<close>

lemma scan_inv_init: "scan_inv 0 scan_init"
  by (simp add: scan_inv_def scan_init_def)

lemma score_column_inv:
  "scan_inv i st \<Longrightarrow> scan_inv (Suc i) (score_column this c1 c2 st)"
  by (auto simp: scan_inv_def score_column_def Let_def)

lemma score_loop_inv:
  "length seq1 = length seq2 \<Longrightarrow> i \<le> length seq1 \<Longrightarrow> scan_inv i st \<Longrightarrow>
   \<exists>st'. score_loop this seq1 seq2 i st = Inr st' \<and> scan_inv (length seq1) st'"
proof (induction this seq1 seq2 i st rule: score_loop.induct)
  case (1 this seq1 seq2 i st)
  show ?case
  proof (cases "i < length seq1")
    case True
    let ?st = "score_column this (toUpperCase (seq1 ! i)) (toUpperCase (seq2 ! i)) st"
    have c: "str_index seq1 i = Some (seq1 ! i)" "str_index seq2 i = Some (seq2 ! i)"
      using True "1.prems"(1) by (simp_all add: str_index_def)
    have "scan_inv (i + 1) ?st"
      using score_column_inv [OF "1.prems"(3)] by simp
    with "1.IH" [OF True refl c(1) c(2) "1.prems"(1)] True
    have "\<exists>st'. score_loop this seq1 seq2 (i + 1) ?st = Inr st' \<and> scan_inv (length seq1) st'"
      by simp
    then show ?thesis
      using True c by (subst score_loop.simps) simp
  next
    case False
    with "1.prems" show ?thesis
      by (subst score_loop.simps) simp
  qed
qed

lemma toUpperCase_dash: "toUpperCase c = CHR ''-'' \<longleftrightarrow> c = CHR ''-''"
proof
  assume h: "toUpperCase c = CHR ''-''"
  show "c = CHR ''-''"
  proof (cases "97 \<le> (of_char c :: nat) \<and> (of_char c :: nat) \<le> 122")
    case True
    then have "toUpperCase c = char_of ((of_char c :: nat) - 32)"
      by (simp add: toUpperCase_def Let_def)
    with h have "(of_char (char_of ((of_char c :: nat) - 32)) :: nat) = of_char (CHR ''-'')"
      by simp
    then have "((of_char c :: nat) - 32) mod 256 = 45"
      by (simp add: of_char_of)
    moreover have "((of_char c :: nat) - 32) mod 256 = of_char c - 32"
      using True by (intro mod_less) linarith
    ultimately have "(of_char c :: nat) - 32 = 45" by simp
    with True have False by linarith
    then show ?thesis ..
  next
    case False
    with h show ?thesis by (simp add: toUpperCase_def Let_def)
  qed
next
  assume "c = CHR ''-''"
  then show "toUpperCase c = CHR ''-''" by (simp add: toUpperCase_def)
qed

lemma default_gap_in_first:
  "calculatePairwiseScore constructor ''AC-T'' ''ACGT'' =
     Inr \<lparr>score = Fin 4, matches = 3, mismatches = 0, gaps = 1, gapRuns = 1,
          identity = Fin 75, similarity = Fin 100, length_ps = 4\<rparr>"
  by code_simp

lemma default_gap_in_second:
  "calculatePairwiseScore constructor ''ACGT'' ''AC-T'' =
     Inr \<lparr>score = Fin 4, matches = 3, mismatches = 0, gaps = 1, gapRuns = 1,
          identity = Fin 75, similarity = Fin 100, length_ps = 4\<rparr>"
  by code_simp

lemma one_gap_charged_once_first:
  "\<exists>r. calculatePairwiseScore
          \<lparr>matchScore = Fin m, mismatchScore = Fin x, gapPenalty = Fin g,
           gapExtensionPenalty = Fin e\<rparr> ''AC-T'' ''ACGT'' = Inr r \<and>
        score r = Fin (3 * m + g)"
  by (simp add: calculatePairwiseScore_def score_loop.simps str_index_def toUpperCase_def
      score_column_def scan_init_def Let_def)

lemma one_gap_charged_once_second:
  "\<exists>r. calculatePairwiseScore
          \<lparr>matchScore = Fin m, mismatchScore = Fin x, gapPenalty = Fin g,
           gapExtensionPenalty = Fin e\<rparr> ''ACGT'' ''AC-T'' = Inr r \<and>
        score r = Fin (3 * m + g)"
  by (simp add: calculatePairwiseScore_def score_loop.simps str_index_def toUpperCase_def
      score_column_def scan_init_def Let_def)

text \<open>
  C1. With the default parameters (match \<open>2\<close>, mismatch \<open>-1\<close>, gap open \<open>-2\<close>, gap
  extension \<open>-0.5\<close>) the pairwise scorer on \<^verbatim>\<open>"AC-T"\<close> and \<^verbatim>\<open>"ACGT"\<close> returns
  gaps 1, gapRuns 1, matches 3, mismatches 0, score 4, identity 75, similarity 100 and
  length 4, and the same with the gap in the second sequence. For any finite parameters
  the score is three times the match score plus the gap-open penalty once: the single gap
  column is charged the opening penalty exactly once and no extension.
\<close>

theorem default_score_AC_T_ACGT:
  "constructor =
     \<lparr>matchScore = Fin 2, mismatchScore = Fin (- 1), gapPenalty = Fin (- 2),
      gapExtensionPenalty = Fin (- (1 / 2))\<rparr> \<and>
   calculatePairwiseScore constructor ''AC-T'' ''ACGT'' =
     Inr \<lparr>score = Fin 4, matches = 3, mismatches = 0, gaps = 1, gapRuns = 1,
          identity = Fin 75, similarity = Fin 100, length_ps = 4\<rparr> \<and>
   calculatePairwiseScore constructor ''ACGT'' ''AC-T'' =
     Inr \<lparr>score = Fin 4, matches = 3, mismatches = 0, gaps = 1, gapRuns = 1,
          identity = Fin 75, similarity = Fin 100, length_ps = 4\<rparr> \<and>
   (\<exists>r. calculatePairwiseScore
          \<lparr>matchScore = Fin m, mismatchScore = Fin x, gapPenalty = Fin g,
           gapExtensionPenalty = Fin e\<rparr> ''AC-T'' ''ACGT'' = Inr r \<and>
        score r = Fin (3 * m + g)) \<and>
   (\<exists>r. calculatePairwiseScore
          \<lparr>matchScore = Fin m, mismatchScore = Fin x, gapPenalty = Fin g,
           gapExtensionPenalty = Fin e\<rparr> ''ACGT'' ''AC-T'' = Inr r \<and>
        score r = Fin (3 * m + g))"
  using default_gap_in_first default_gap_in_second one_gap_charged_once_first [of m x g e]
    one_gap_charged_once_second [of m x g e]
  by (simp only: constructor_def simp_thms)

text \<open>
  C4. For two sequences of unequal length the pairwise scorer fails with the
  length-mismatch error: the result is the error alone, no score record.
\<close>

theorem unequal_length_fails:
  "length seq1 \<noteq> length seq2 \<Longrightarrow>
   calculatePairwiseScore this seq1 seq2 = Inl LengthMismatch \<and>
   LengthMismatch = Error ''Sequences must be of equal length for alignment scoring''"
  by (simp add: calculatePairwiseScore_def LengthMismatch_def)

theorem unequal_length_fails_witness:
  "length ''ACG'' \<noteq> length ''AC'' \<and>
   calculatePairwiseScore constructor ''ACG'' ''AC'' = Inl LengthMismatch"
  using unequal_length_fails [of "''ACG''" "''AC''" constructor] by simp

text \<open>
  C10. For two sequences of equal length the pairwise scorer returns a score record in
  which matches, mismatches and gaps add up to the length, the length is the common length
  of the inputs, there are at most as many gap runs as gap columns, and there is no gap
  run exactly when there is no gap column.
\<close>

theorem pairwise_counts_partition:
  assumes "length seq1 = length seq2"
  shows "\<exists>r. calculatePairwiseScore this seq1 seq2 = Inr r \<and>
           matches r + mismatches r + gaps r = length_ps r \<and> length_ps r = length seq1 \<and>
           length_ps r = length seq2 \<and>
           gapRuns r \<le> gaps r \<and> (gapRuns r = 0 \<longleftrightarrow> gaps r = 0)"
proof -
  obtain st where st: "score_loop this seq1 seq2 0 scan_init = Inr st"
    and inv: "scan_inv (length seq1) st"
    using score_loop_inv [OF assms _ scan_inv_init] by blast
  show ?thesis
    using assms st inv by (simp add: calculatePairwiseScore_def Let_def scan_inv_def)
qed

theorem pairwise_counts_partition_witness:
  "length ''A--T'' = length ''AC-G'' \<and>
   (\<exists>r. calculatePairwiseScore constructor ''A--T'' ''AC-G'' = Inr r \<and>
        matches r + mismatches r + gaps r = length_ps r \<and> length_ps r = length ''A--T'' \<and>
        length_ps r = length ''AC-G'' \<and>
        gapRuns r \<le> gaps r \<and> (gapRuns r = 0 \<longleftrightarrow> gaps r = 0))"
  using pairwise_counts_partition [of "''A--T''" "''AC-G''" constructor] by simp

lemma score_column_gap:
  "c1 = CHR ''-'' \<or> c2 = CHR ''-'' \<Longrightarrow> gaps_v (score_column this c1 c2 st) = gaps_v st + 1"
  by (auto simp: score_column_def Let_def)

lemma score_loop_all_gaps:
  "length seq1 = length seq2 \<Longrightarrow> i \<le> length seq1 \<Longrightarrow>
   \<forall>j<length seq1. seq1 ! j = CHR ''-'' \<or> seq2 ! j = CHR ''-'' \<Longrightarrow>
   score_loop this seq1 seq2 i st = Inr st' \<Longrightarrow>
   gaps_v st' = gaps_v st + (length seq1 - i)"
proof (induction this seq1 seq2 i st rule: score_loop.induct)
  case (1 this seq1 seq2 i st)
  show ?case
  proof (cases "i < length seq1")
    case True
    let ?st = "score_column this (toUpperCase (seq1 ! i)) (toUpperCase (seq2 ! i)) st"
    have c: "str_index seq1 i = Some (seq1 ! i)" "str_index seq2 i = Some (seq2 ! i)"
      using True "1.prems"(1) by (simp_all add: str_index_def)
    have run: "score_loop this seq1 seq2 (i + 1) ?st = Inr st'"
      using "1.prems"(4) True c by (subst (asm) score_loop.simps) simp
    have "toUpperCase (seq1 ! i) = CHR ''-'' \<or> toUpperCase (seq2 ! i) = CHR ''-''"
      using "1.prems"(3) True by (simp add: toUpperCase_dash)
    then have "gaps_v ?st = gaps_v st + 1"
      by (rule score_column_gap)
    moreover have "gaps_v st' = gaps_v ?st + (length seq1 - (i + 1))"
      using "1.IH" [OF True refl c(1) c(2) "1.prems"(1) _ "1.prems"(3) run] True by simp
    ultimately show ?thesis using True by simp
  next
    case False
    with "1.prems" show ?thesis
      by (subst (asm) score_loop.simps) simp
  qed
qed


text \<open>
  C3. For two sequences of equal length the scorer returns a record in which identity is
  NaN whenever its denominator (matches + mismatches + gaps) is zero, which is the case of
  an alignment with no columns, and similarity is NaN whenever its denominator (length -
  gaps) is zero, which is the case when every column is a gap column: the zero denominator
  shows as the not-a-number value, never as a finite number.
\<close>

theorem zero_denominator_is_NaN:
  assumes "length seq1 = length seq2"
  shows "\<exists>r. calculatePairwiseScore this seq1 seq2 = Inr r \<and>
           (matches r + mismatches r + gaps r = 0 \<longrightarrow> identity r = NaN) \<and>
           (int (length_ps r) - int (gaps r) = 0 \<longrightarrow> similarity r = NaN) \<and>
           (seq1 = [] \<longrightarrow> identity r = NaN \<and> similarity r = NaN) \<and>
           ((\<forall>j<length seq1. seq1 ! j = CHR ''-'' \<or> seq2 ! j = CHR ''-'') \<longrightarrow>
              similarity r = NaN)"
proof -
  obtain st where st: "score_loop this seq1 seq2 0 scan_init = Inr st"
    and inv: "scan_inv (length seq1) st"
    using score_loop_inv [OF assms _ scan_inv_init] by blast
  have sum: "matches_v st + mismatches_v st + gaps_v st = length seq1"
    using inv by (simp add: scan_inv_def)
  have allgap: "gaps_v st = length seq1"
    if "\<forall>j<length seq1. seq1 ! j = CHR ''-'' \<or> seq2 ! j = CHR ''-''"
    using score_loop_all_gaps [OF assms _ that st] by (simp add: scan_init_def)
  define r where "r = \<lparr>score = score_v st, matches = matches_v st,
      mismatches = mismatches_v st, gaps = gaps_v st, gapRuns = gapRuns_v st,
      identity = toFixed2 (js_mul (js_div (of_count (matches_v st))
         (of_count (matches_v st + mismatches_v st + gaps_v st))) (Fin 100)),
      similarity = toFixed2 (js_mul (js_div (of_count (matches_v st))
         (Fin (of_int (int (length seq1) - int (gaps_v st))))) (Fin 100)),
      length_ps = length seq1\<rparr>"
  have res: "calculatePairwiseScore this seq1 seq2 = Inr r"
    using assms st by (simp add: calculatePairwiseScore_def Let_def r_def)
  have id0: "identity r = NaN" if "length seq1 = 0"
    using that sum by (simp add: r_def of_count_def)
  have sim0: "similarity r = NaN" if "gaps_v st = length seq1"
    using that sum by (simp add: r_def of_count_def)
  have a: "matches r + mismatches r + gaps r = 0 \<longrightarrow> identity r = NaN"
    using id0 sum by (simp add: r_def)
  have b: "int (length_ps r) - int (gaps r) = 0 \<longrightarrow> similarity r = NaN"
    using sim0 by (simp add: r_def)
  have c: "seq1 = [] \<longrightarrow> identity r = NaN \<and> similarity r = NaN"
  proof
    assume "seq1 = []"
    then have l0: "length seq1 = 0" by simp
    with sum have "gaps_v st = length seq1" by simp
    with l0 show "identity r = NaN \<and> similarity r = NaN"
      using id0 sim0 by simp
  qed
  have d: "(\<forall>j<length seq1. seq1 ! j = CHR ''-'' \<or> seq2 ! j = CHR ''-'') \<longrightarrow>
              similarity r = NaN"
    using allgap sim0 by blast
  show ?thesis
    by (rule exI [of _ r]) (intro conjI res a b c d)
qed

theorem zero_denominator_is_NaN_witness:
  "(length ('''' :: string) = length ('''' :: string) \<and>
    (\<exists>r. calculatePairwiseScore constructor '''' '''' = Inr r \<and>
         matches r + mismatches r + gaps r = 0 \<and> int (length_ps r) - int (gaps r) = 0 \<and>
         identity r = NaN \<and> similarity r = NaN)) \<and>
   (length ''--'' = length ''A-'' \<and>
    list_all (\<lambda>j. ''--'' ! j = CHR ''-'' \<or> ''A-'' ! j = CHR ''-'') [0..<length ''--''] \<and>
    (\<exists>r. calculatePairwiseScore constructor ''--'' ''A-'' = Inr r \<and>
         int (length_ps r) - int (gaps r) = 0 \<and> similarity r = NaN))"
proof -
  have a: "calculatePairwiseScore constructor '''' '''' =
      Inr \<lparr>score = Fin 0, matches = 0, mismatches = 0, gaps = 0, gapRuns = 0,
        identity = NaN, similarity = NaN, length_ps = 0\<rparr>"
    by code_simp
  have b: "calculatePairwiseScore constructor ''--'' ''A-'' =
      Inr \<lparr>score = Fin (- (5 / 2)), matches = 0, mismatches = 0, gaps = 2,
        gapRuns = 1, identity = Fin 0, similarity = NaN, length_ps = 2\<rparr>"
    by code_simp
  have c: "\<forall>j<length ''--''. ''--'' ! j = CHR ''-'' \<or> ''A-'' ! j = CHR ''-''"
    by (simp add: less_Suc_eq)
  show ?thesis
    using zero_denominator_is_NaN [of "''''" "''''" constructor]
      zero_denominator_is_NaN [of "''--''" "''A-''" constructor] a b c
    by simp
qed

section \<open>Properties of the classifier and of the parameters\<close>

text \<open>
  C8. The classifier is defined on every number, with thresholds that include their lower
  bound: at least 80 is Excellent (green \<^verbatim>\<open>#28a745\<close>), from 60 up to 80 is Good (yellow
  \<^verbatim>\<open>#ffc107\<close>), from 40 up to 60 is Fair (orange \<^verbatim>\<open>#fd7e14\<close>), and anything below 40
  is Poor (red \<^verbatim>\<open>#dc3545\<close>), as is NaN.
\<close>

theorem quality_tiers:
  fixes x :: rat
  shows "(80 \<le> x \<longrightarrow>
            getQualityLabel (Fin x) = ''Excellent'' \<and> getQualityColor (Fin x) = ''#28a745'') \<and>
         (60 \<le> x \<and> x < 80 \<longrightarrow>
            getQualityLabel (Fin x) = ''Good'' \<and> getQualityColor (Fin x) = ''#ffc107'') \<and>
         (40 \<le> x \<and> x < 60 \<longrightarrow>
            getQualityLabel (Fin x) = ''Fair'' \<and> getQualityColor (Fin x) = ''#fd7e14'') \<and>
         (x < 40 \<longrightarrow>
            getQualityLabel (Fin x) = ''Poor'' \<and> getQualityColor (Fin x) = ''#dc3545'') \<and>
         getQualityLabel NaN = ''Poor'' \<and> getQualityColor NaN = ''#dc3545''"
  by (simp add: getQualityLabel_def getQualityColor_def)

theorem quality_tiers_witness:
  "((80::rat) \<le> 80 \<and> getQualityLabel (Fin 80) = ''Excellent'' \<and>
      getQualityColor (Fin 80) = ''#28a745'') \<and>
   ((60::rat) \<le> 60 \<and> (60::rat) < 80 \<and> getQualityLabel (Fin 60) = ''Good'' \<and>
      getQualityColor (Fin 60) = ''#ffc107'') \<and>
   ((40::rat) \<le> 40 \<and> (40::rat) < 60 \<and> getQualityLabel (Fin 40) = ''Fair'' \<and>
      getQualityColor (Fin 40) = ''#fd7e14'') \<and>
   ((10::rat) < 40 \<and> getQualityLabel (Fin 10) = ''Poor'' \<and>
      getQualityColor (Fin 10) = ''#dc3545'')"
  using quality_tiers [of 80] quality_tiers [of 60] quality_tiers [of 40] quality_tiers [of 10]
  by simp

text \<open>
  C9. \<^verbatim>\<open>setParameters\<close> sets each of the four parameters that its argument supplies to
  the supplied value and leaves each parameter that the argument omits as it was; a new
  scorer has the DNA defaults \<open>2\<close>, \<open>-1\<close>, \<open>-2\<close>, \<open>-0.5\<close>. (The gap-open penalty is the
  field \<^verbatim>\<open>gapPenalty\<close> of the source.)
\<close>

theorem setParameters_frame:
  "matchScore (setParameters this ps) =
     (case p_matchScore ps of Some v \<Rightarrow> v | None \<Rightarrow> matchScore this) \<and>
   mismatchScore (setParameters this ps) =
     (case p_mismatchScore ps of Some v \<Rightarrow> v | None \<Rightarrow> mismatchScore this) \<and>
   gapPenalty (setParameters this ps) =
     (case p_gapPenalty ps of Some v \<Rightarrow> v | None \<Rightarrow> gapPenalty this) \<and>
   gapExtensionPenalty (setParameters this ps) =
     (case p_gapExtensionPenalty ps of Some v \<Rightarrow> v | None \<Rightarrow> gapExtensionPenalty this) \<and>
   constructor =
     \<lparr>matchScore = Fin 2, mismatchScore = Fin (- 1), gapPenalty = Fin (- 2),
      gapExtensionPenalty = Fin (- (1 / 2))\<rparr>"
  by (simp add: setParameters_def constructor_def Let_def split: option.splits)

section \<open>Properties of the MSA statistics\<close>

lemma check_lengths_ok:
  "\<forall>r\<in>set rs. length (sequence r) = n \<Longrightarrow> check_lengths rs n = Inr ()"
  by (induction rs) simp_all

lemma check_lengths_fail:
  "\<exists>r\<in>set rs. length (sequence r) \<noteq> n \<Longrightarrow> check_lengths rs n = Inl MSALengthMismatch"
  by (induction rs) auto

text \<open>
  C5. \<^verbatim>\<open>calculateMSAStats\<close> fails with the minimum-sequences error when fewer than two
  records are given, and with the length-mismatch error of its own up-front check when two
  records differ in the length of their sequences; that error carries the message of the
  up-front loop, not the message of the pairwise scorer: it is raised before any pair is
  scored.
\<close>

theorem msa_preconditions:
  "(length rs < 2 \<longrightarrow> calculateMSAStats this rs = Inl MinimumSequences) \<and>
   ((\<exists>r1\<in>set rs. \<exists>r2\<in>set rs. length (sequence r1) \<noteq> length (sequence r2)) \<longrightarrow>
      calculateMSAStats this rs = Inl MSALengthMismatch) \<and>
   MinimumSequences = Error ''Need at least 2 sequences for MSA scoring'' \<and>
   MSALengthMismatch = Error ''All sequences must be same length in MSA'' \<and>
   MSALengthMismatch \<noteq> LengthMismatch"
proof -
  have "calculateMSAStats this rs = Inl MSALengthMismatch"
    if h: "\<exists>r1\<in>set rs. \<exists>r2\<in>set rs. length (sequence r1) \<noteq> length (sequence r2)"
  proof -
    from h obtain r1 r2 where r: "r1 \<in> set rs" "r2 \<in> set rs"
      "length (sequence r1) \<noteq> length (sequence r2)" by blast
    have two: "\<not> length rs < 2"
    proof
      assume "length rs < 2"
      then have "length rs = 0 \<or> length rs = 1" by linarith
      then show False
        using r by (auto simp: length_Suc_conv)
    qed
    have "\<exists>r\<in>set rs. length (sequence r) \<noteq> length (sequence (rs ! 0))"
      using r by metis
    then have "check_lengths rs (length (sequence (rs ! 0))) = Inl MSALengthMismatch"
      by (rule check_lengths_fail)
    with two show ?thesis
      by (simp add: calculateMSAStats_def Let_def)
  qed
  then show ?thesis
    by (simp add: calculateMSAStats_def MinimumSequences_def MSALengthMismatch_def
        LengthMismatch_def)
qed

theorem msa_preconditions_witness:
  "(length [\<lparr>id_rec = ''a'', sequence = ''ACGT''\<rparr>] < 2 \<and>
    calculateMSAStats constructor [\<lparr>id_rec = ''a'', sequence = ''ACGT''\<rparr>] =
      Inl MinimumSequences) \<and>
   ((\<exists>r1\<in>set [\<lparr>id_rec = ''a'', sequence = ''ACGT''\<rparr>, \<lparr>id_rec = ''b'', sequence = ''ACGT''\<rparr>,
               \<lparr>id_rec = ''c'', sequence = ''ACG''\<rparr>].
      \<exists>r2\<in>set [\<lparr>id_rec = ''a'', sequence = ''ACGT''\<rparr>, \<lparr>id_rec = ''b'', sequence = ''ACGT''\<rparr>,
               \<lparr>id_rec = ''c'', sequence = ''ACG''\<rparr>].
        length (sequence r1) \<noteq> length (sequence r2)) \<and>
    calculateMSAStats constructor
      [\<lparr>id_rec = ''a'', sequence = ''ACGT''\<rparr>, \<lparr>id_rec = ''b'', sequence = ''ACGT''\<rparr>,
       \<lparr>id_rec = ''c'', sequence = ''ACG''\<rparr>] = Inl MSALengthMismatch)"
proof -
  let ?one = "[\<lparr>id_rec = ''a'', sequence = ''ACGT''\<rparr>]"
  let ?three = "[\<lparr>id_rec = ''a'', sequence = ''ACGT''\<rparr>, \<lparr>id_rec = ''b'', sequence = ''ACGT''\<rparr>,
                 \<lparr>id_rec = ''c'', sequence = ''ACG''\<rparr>]"
  have h1: "length ?one < 2" by simp
  have "length (sequence \<lparr>id_rec = ''a'', sequence = ''ACGT''\<rparr>) \<noteq>
        length (sequence \<lparr>id_rec = ''c'', sequence = ''ACG''\<rparr>)" by simp
  then have h2: "\<exists>r1\<in>set ?three. \<exists>r2\<in>set ?three. length (sequence r1) \<noteq> length (sequence r2)"
    by (intro bexI [where x = "\<lparr>id_rec = ''a'', sequence = ''ACGT''\<rparr>"]
        bexI [where x = "\<lparr>id_rec = ''c'', sequence = ''ACG''\<rparr>"]) simp_all
  have c1: "calculateMSAStats constructor ?one = Inl MinimumSequences"
    using msa_preconditions [of ?one constructor, THEN conjunct1, THEN mp, OF h1] .
  have c2: "calculateMSAStats constructor ?three = Inl MSALengthMismatch"
    using msa_preconditions [of ?three constructor, THEN conjunct2, THEN conjunct1, THEN mp, OF h2] .
  show ?thesis by (intro conjI h1 h2 c1 c2)
qed

lemma set_index_pairs: "set (index_pairs n) = {(i, j). i < j \<and> j < n}"
proof -
  have "(a, b) \<in> set (index_pairs n) \<longleftrightarrow> a < b \<and> b < n" for a b
    by (force simp: index_pairs_def)
  then show ?thesis by auto
qed

lemma sum_below: "(\<Sum>i<n. n - Suc i) * 2 = n * (n - 1)"
proof (induction n)
  case 0
  show ?case by simp
next
  case (Suc n)
  have "(\<Sum>i<Suc n. Suc n - Suc i) = (\<Sum>i<n. n - i)"
    by simp
  also have "\<dots> = (\<Sum>i<n. (n - Suc i) + 1)"
    by (rule sum.cong) auto
  also have "\<dots> = (\<Sum>i<n. n - Suc i) + n"
    by (simp only: sum.distrib) simp
  finally have "(\<Sum>i<Suc n. Suc n - Suc i) * 2 = (\<Sum>i<n. n - Suc i) * 2 + 2 * n"
    by simp
  also have "\<dots> = n * (n - 1) + 2 * n"
    using Suc.IH by simp
  also have "\<dots> = Suc n * (Suc n - 1)"
    by (cases n) simp_all
  finally show ?case .
qed

lemma length_index_pairs: "length (index_pairs n) = n * (n - 1) div 2"
proof -
  have "length (index_pairs n) = sum_list (map (\<lambda>i. n - Suc i) [0..<n])"
    by (simp add: index_pairs_def length_concat comp_def)
  also have "\<dots> = (\<Sum>i<n. n - Suc i)"
    by (simp add: interv_sum_list_conv_sum_set_nat atLeast0LessThan)
  finally show ?thesis
    using sum_below [of n] by simp
qed

lemma sorted_index_pairs_from:
  "sorted_wrt pair_before (concat (map (\<lambda>i. map (Pair i) [Suc i..<n]) [k..<n]))"
proof (induction "n - k" arbitrary: k)
  case 0
  then show ?case by simp
next
  case (Suc d)
  then have k: "k < n" and d: "d = n - Suc k" by simp_all
  have "sorted_wrt pair_before (map (Pair k) [Suc k..<n])"
    by (simp add: sorted_wrt_map pair_before_def)
  moreover have "\<forall>p\<in>set (map (Pair k) [Suc k..<n]).
      \<forall>q\<in>set (concat (map (\<lambda>i. map (Pair i) [Suc i..<n]) [Suc k..<n])). pair_before p q"
    by (auto simp: pair_before_def)
  ultimately show ?case
    using Suc.hyps(1) [OF d] k by (simp add: upt_conv_Cons sorted_wrt_append)
qed

lemma sorted_index_pairs: "sorted_wrt pair_before (index_pairs n)"
  unfolding index_pairs_def by (rule sorted_index_pairs_from)

lemma calculatePairwiseScore_total:
  assumes "length seq1 = length seq2"
  shows "\<exists>r. calculatePairwiseScore this seq1 seq2 = Inr r"
proof -
  obtain st where "score_loop this seq1 seq2 0 scan_init = Inr st"
    using score_loop_inv [OF assms _ scan_inv_init] by blast
  then show ?thesis
    using assms by (simp add: calculatePairwiseScore_def Let_def)
qed

lemma pair_loop_j_result:
  "n = length rs \<Longrightarrow> \<forall>r\<in>set rs. length (sequence r) = L \<Longrightarrow> i < n \<Longrightarrow> j \<le> n \<Longrightarrow>
   \<exists>ps t. pair_loop_j this rs n i j st = Inr (fst st @ ps, t) \<and>
          map Inr ps =
            map (\<lambda>b. calculatePairwiseScore this (sequence (rs ! i)) (sequence (rs ! b))) [j..<n]"
proof (induction this rs n i j st rule: pair_loop_j.induct)
  case (1 this rs n i j st)
  show ?case
  proof (cases "j < n")
    case True
    have "length (sequence (rs ! i)) = length (sequence (rs ! j))"
      using "1.prems" True by simp
    then obtain pairScore where
      ps: "calculatePairwiseScore this (sequence (rs ! i)) (sequence (rs ! j)) = Inr pairScore"
      using calculatePairwiseScore_total by blast
    let ?st = "(fst st @ [pairScore], js_add (snd st) (score pairScore))"
    from "1.IH" [OF True ps "1.prems"(1,2,3)] True
    obtain qs t where
      run: "pair_loop_j this rs n i (j + 1) ?st = Inr (fst ?st @ qs, t)" and
      qs: "map Inr qs =
        map (\<lambda>b. calculatePairwiseScore this (sequence (rs ! i)) (sequence (rs ! b)))
          [j + 1..<n]"
      by auto
    have "pair_loop_j this rs n i j st = Inr (fst st @ (pairScore # qs), t)"
      using True ps run by (subst pair_loop_j.simps) simp
    moreover have "map Inr (pairScore # qs) =
        map (\<lambda>b. calculatePairwiseScore this (sequence (rs ! i)) (sequence (rs ! b))) [j..<n]"
      using True ps qs by (simp add: upt_conv_Cons)
    ultimately show ?thesis by blast
  next
    case False
    with "1.prems" have "j = n" by simp
    then show ?thesis
      by (subst pair_loop_j.simps) (simp add: exI [of _ "snd st"])
  qed
qed

lemma pair_loop_i_result:
  "n = length rs \<Longrightarrow> \<forall>r\<in>set rs. length (sequence r) = L \<Longrightarrow> i \<le> n \<Longrightarrow>
   \<exists>ps t. pair_loop_i this rs n i st = Inr (fst st @ ps, t) \<and>
          map Inr ps =
            map (\<lambda>(a, b). calculatePairwiseScore this (sequence (rs ! a)) (sequence (rs ! b)))
              (concat (map (\<lambda>a. map (Pair a) [Suc a..<n]) [i..<n]))"
proof (induction this rs n i st rule: pair_loop_i.induct)
  case (1 this rs n i st)
  show ?case
  proof (cases "i < n")
    case True
    from pair_loop_j_result [OF "1.prems"(1,2) True, of "i + 1" this st] True
    obtain ps t where
      inner: "pair_loop_j this rs n i (i + 1) st = Inr (fst st @ ps, t)" and
      ps: "map Inr ps =
        map (\<lambda>b. calculatePairwiseScore this (sequence (rs ! i)) (sequence (rs ! b)))
          [i + 1..<n]"
      by auto
    from "1.IH" [OF True inner "1.prems"(1,2)] True
    obtain qs t' where
      outer: "pair_loop_i this rs n (i + 1) (fst st @ ps, t) = Inr ((fst st @ ps) @ qs, t')" and
      qs: "map Inr qs =
        map (\<lambda>(a, b). calculatePairwiseScore this (sequence (rs ! a)) (sequence (rs ! b)))
          (concat (map (\<lambda>a. map (Pair a) [Suc a..<n]) [i + 1..<n]))"
      by auto
    have "pair_loop_i this rs n i st = Inr (fst st @ (ps @ qs), t')"
      using True inner outer by (subst pair_loop_i.simps) simp
    moreover have "map Inr (ps @ qs) =
        map (\<lambda>(a, b). calculatePairwiseScore this (sequence (rs ! a)) (sequence (rs ! b)))
          (concat (map (\<lambda>a. map (Pair a) [Suc a..<n]) [i..<n]))"
      using True ps qs by (simp add: upt_conv_Cons comp_def)
    ultimately show ?thesis by blast
  next
    case False
    with "1.prems" have "i = n" by simp
    then show ?thesis
      by (subst pair_loop_i.simps) (simp add: exI [of _ "snd st"])
  qed
qed

lemma column_chars_ok:
  "\<forall>r\<in>set rs. p < length (sequence r) \<Longrightarrow>
   column_chars rs p = Inr (map (\<lambda>r. toUpperCase (sequence r ! p)) rs)"
  by (induction rs) (simp_all add: str_index_def)

lemma column_conserved_ok:
  assumes "\<forall>r\<in>set rs. p < length (sequence r)"
  shows "column_conserved rs p = Inr (card (nongap_chars rs p) = 1)"
proof -
  have "set (filter (\<lambda>c. c \<noteq> CHR ''-'') (map (\<lambda>r. toUpperCase (sequence r ! p)) rs)) =
      nongap_chars rs p"
    by (auto simp: nongap_chars_def)
  moreover have "CHR ''-'' \<notin> nongap_chars rs p"
    by (simp add: nongap_chars_def)
  ultimately show ?thesis
    by (simp add: column_conserved_def column_chars_ok [OF assms] Let_def)
qed

lemma conservation_loop_result:
  "\<forall>r\<in>set rs. length (sequence r) = L \<Longrightarrow> pos \<le> L \<Longrightarrow>
   conservation_loop rs L pos c =
     Inr (c + length (filter (\<lambda>p. card (nongap_chars rs p) = 1) [pos..<L]))"
proof (induction rs L pos c rule: conservation_loop.induct)
  case (1 rs L pos c)
  show ?case
  proof (cases "pos < L")
    case True
    have cc: "column_conserved rs pos = Inr (card (nongap_chars rs pos) = 1)"
      using "1.prems"(1) True by (intro column_conserved_ok) simp
    have "conservation_loop rs L (pos + 1)
            (if card (nongap_chars rs pos) = 1 then c + 1 else c) =
          Inr ((if card (nongap_chars rs pos) = 1 then c + 1 else c) +
               length (filter (\<lambda>p. card (nongap_chars rs p) = 1) [pos + 1..<L]))"
      using "1.IH" [OF True cc "1.prems"(1)] True by simp
    then show ?thesis
      using True cc by (subst conservation_loop.simps) (simp add: upt_conv_Cons)
  next
    case False
    with "1.prems" show ?thesis
      by (subst conservation_loop.simps) simp
  qed
qed

lemma calculateMSAStats_valid:
  assumes two: "2 \<le> length rs" and uni: "\<forall>r\<in>set rs. length (sequence r) = L"
  shows "\<exists>st. calculateMSAStats this rs = Inr st \<and> numSequences st = length rs \<and>
           alignmentLength st = L \<and>
           conservedPositions st =
             length (filter (\<lambda>p. card (nongap_chars rs p) = 1) [0..<L]) \<and>
           map Inr (pairwiseScores st) =
             map (\<lambda>(a, b). calculatePairwiseScore this (sequence (rs ! a)) (sequence (rs ! b)))
               (index_pairs (length rs)) \<and>
           totalPairs st = length (pairwiseScores st)"
proof -
  have "rs ! 0 \<in> set rs"
    using two by (intro nth_mem) linarith
  with uni have L: "length (sequence (rs ! 0)) = L"
    by blast
  have chk: "check_lengths rs L = Inr ()"
    using uni by (rule check_lengths_ok)
  have cons: "conservation_loop rs L 0 0 =
      Inr (length (filter (\<lambda>p. card (nongap_chars rs p) = 1) [0..<L]))"
    using conservation_loop_result [OF uni, of 0 0] by simp
  obtain ps t where
    loop: "pair_loop_i this rs (length rs) 0 ([], Fin 0) = Inr (ps, t)" and
    ps: "map Inr ps =
      map (\<lambda>(a, b). calculatePairwiseScore this (sequence (rs ! a)) (sequence (rs ! b)))
        (index_pairs (length rs))"
    using pair_loop_i_result [OF refl uni, of 0 this "([], Fin 0)"]
    by (auto simp: index_pairs_def)
  show ?thesis
    using two L chk cons loop ps by (simp add: calculateMSAStats_def Let_def)
qed



lemma index_pairs_3: "index_pairs 3 = [(0, 1), (0, 2), (1, 2)]"
  by code_simp


text \<open>
  C6. For \<open>N \<ge> 2\<close> records of equal length \<^verbatim>\<open>calculateMSAStats\<close> returns statistics
  whose list \<^verbatim>\<open>pairwiseScores\<close> holds, in this order, the score of the pair \<open>(i, j)\<close> for
  each index pair with \<open>i < j < N\<close>, by ascending \<open>i\<close> and then ascending \<open>j\<close>; the list
  has \<open>N * (N - 1) / 2\<close> entries and \<^verbatim>\<open>totalPairs\<close> is that number.
\<close>

theorem pairwise_scores_all_pairs_in_order:
  assumes "2 \<le> length rs" and "\<forall>r\<in>set rs. length (sequence r) = L"
  shows "\<exists>st. calculateMSAStats this rs = Inr st \<and>
           map Inr (pairwiseScores st) =
             map (\<lambda>(i, j). calculatePairwiseScore this (sequence (rs ! i)) (sequence (rs ! j)))
               (index_pairs (length rs)) \<and>
           length (pairwiseScores st) = length rs * (length rs - 1) div 2 \<and>
           totalPairs st = length rs * (length rs - 1) div 2 \<and>
           set (index_pairs (length rs)) = {(i, j). i < j \<and> j < length rs} \<and>
           sorted_wrt pair_before (index_pairs (length rs))"
proof -
  obtain st where st: "calculateMSAStats this rs = Inr st" and
    ps: "map Inr (pairwiseScores st) =
      map (\<lambda>(i, j). calculatePairwiseScore this (sequence (rs ! i)) (sequence (rs ! j)))
        (index_pairs (length rs))" and
    tp: "totalPairs st = length (pairwiseScores st)"
    using calculateMSAStats_valid [OF assms] by blast
  have "length (map Inr (pairwiseScores st) :: (error + PairwiseScore) list) =
      length (index_pairs (length rs))"
    by (simp only: ps length_map)
  then have len: "length (pairwiseScores st) = length rs * (length rs - 1) div 2"
    by (simp add: length_index_pairs)
  show ?thesis
    by (rule exI [of _ st])
      (intro conjI st ps len set_index_pairs sorted_index_pairs, simp add: tp len)
qed

theorem pairwise_scores_all_pairs_in_order_witness:
  "2 \<le> length [\<lparr>id_rec = ''a'', sequence = ''AC''\<rparr>, \<lparr>id_rec = ''b'', sequence = ''A-''\<rparr>,
               \<lparr>id_rec = ''c'', sequence = ''GC''\<rparr>] \<and>
   list_all (\<lambda>r. length (sequence r) = 2)
     [\<lparr>id_rec = ''a'', sequence = ''AC''\<rparr>, \<lparr>id_rec = ''b'', sequence = ''A-''\<rparr>,
      \<lparr>id_rec = ''c'', sequence = ''GC''\<rparr>] \<and>
   (\<exists>st. calculateMSAStats constructor
           [\<lparr>id_rec = ''a'', sequence = ''AC''\<rparr>, \<lparr>id_rec = ''b'', sequence = ''A-''\<rparr>,
            \<lparr>id_rec = ''c'', sequence = ''GC''\<rparr>] = Inr st \<and>
         map Inr (pairwiseScores st) =
           [calculatePairwiseScore constructor ''AC'' ''A-'',
            calculatePairwiseScore constructor ''AC'' ''GC'',
            calculatePairwiseScore constructor ''A-'' ''GC''] \<and>
         length (pairwiseScores st) = 3 \<and> totalPairs st = 3)"
proof -
  let ?rs = "[\<lparr>id_rec = ''a'', sequence = ''AC''\<rparr>, \<lparr>id_rec = ''b'', sequence = ''A-''\<rparr>,
              \<lparr>id_rec = ''c'', sequence = ''GC''\<rparr>]"
  have h1: "2 \<le> length ?rs" by simp
  have h2: "\<forall>r\<in>set ?rs. length (sequence r) = 2" by simp
  have len: "length ?rs = 3" by simp
  show ?thesis
    using pairwise_scores_all_pairs_in_order [OF h1 h2, of constructor, unfolded len index_pairs_3]
      h1 h2
    by simp (elim exE conjE, intro exI conjI, assumption+)
qed


text \<open>
  C2. For \<open>N \<ge> 2\<close> records of equal length \<open>L\<close>, a column \<open>p < L\<close> is counted as
  conserved exactly when the set of its distinct upper-cased characters other than the gap
  character has one member, and \<^verbatim>\<open>conservedPositions\<close> is the number of such columns. In
  particular a column with gaps and one uniform character elsewhere is conserved, and a
  column of gaps only is not.
\<close>

theorem conserved_iff_one_nongap_char:
  assumes "2 \<le> length rs" and "\<forall>r\<in>set rs. length (sequence r) = L"
  shows "\<exists>st. calculateMSAStats this rs = Inr st \<and> alignmentLength st = L \<and>
           conservedPositions st =
             length (filter (\<lambda>p. card (nongap_chars rs p) = 1) [0..<L]) \<and>
           (\<forall>p<L. column_conserved rs p = Inr (card (nongap_chars rs p) = 1)) \<and>
           (\<forall>p<L. \<forall>c. c \<noteq> CHR ''-'' \<and> (\<exists>r\<in>set rs. toUpperCase (sequence r ! p) = c) \<and>
                   (\<forall>r\<in>set rs. toUpperCase (sequence r ! p) = c \<or> sequence r ! p = CHR ''-'')
                 \<longrightarrow> column_conserved rs p = Inr True) \<and>
           (\<forall>p<L. (\<forall>r\<in>set rs. sequence r ! p = CHR ''-'') \<longrightarrow>
                 column_conserved rs p = Inr False)"
proof -
  obtain st where st: "calculateMSAStats this rs = Inr st" and al: "alignmentLength st = L" and
    cp: "conservedPositions st =
      length (filter (\<lambda>p. card (nongap_chars rs p) = 1) [0..<L])"
    using calculateMSAStats_valid [OF assms] by blast
  have col: "column_conserved rs p = Inr (card (nongap_chars rs p) = 1)" if "p < L" for p
    using assms(2) that by (intro column_conserved_ok) simp
  have one: "column_conserved rs p = Inr True"
    if p: "p < L" and c: "c \<noteq> CHR ''-''" and ex: "\<exists>r\<in>set rs. toUpperCase (sequence r ! p) = c"
      and all: "\<forall>r\<in>set rs. toUpperCase (sequence r ! p) = c \<or> sequence r ! p = CHR ''-''"
    for p c
  proof -
    have "nongap_chars rs p = {c}"
    proof
      show "nongap_chars rs p \<subseteq> {c}"
        using all by (auto simp: nongap_chars_def toUpperCase_dash)
      show "{c} \<subseteq> nongap_chars rs p"
        using ex c by (auto simp: nongap_chars_def)
    qed
    then show ?thesis using col [OF p] by simp
  qed
  have none: "column_conserved rs p = Inr False"
    if p: "p < L" and all: "\<forall>r\<in>set rs. sequence r ! p = CHR ''-''" for p
  proof -
    have "nongap_chars rs p = {}"
      using all by (auto simp: nongap_chars_def toUpperCase_dash)
    then show ?thesis using col [OF p] by simp
  qed
  show ?thesis
    by (rule exI [of _ st]) (use st al cp col one none in blast)
qed

theorem conserved_iff_one_nongap_char_witness:
  "2 \<le> length [\<lparr>id_rec = ''a'', sequence = ''A-CT''\<rparr>, \<lparr>id_rec = ''b'', sequence = ''a-GT''\<rparr>,
               \<lparr>id_rec = ''c'', sequence = ''--CT''\<rparr>] \<and>
   list_all (\<lambda>r. length (sequence r) = 4)
     [\<lparr>id_rec = ''a'', sequence = ''A-CT''\<rparr>, \<lparr>id_rec = ''b'', sequence = ''a-GT''\<rparr>,
      \<lparr>id_rec = ''c'', sequence = ''--CT''\<rparr>] \<and>
   (\<exists>st. calculateMSAStats constructor
           [\<lparr>id_rec = ''a'', sequence = ''A-CT''\<rparr>, \<lparr>id_rec = ''b'', sequence = ''a-GT''\<rparr>,
            \<lparr>id_rec = ''c'', sequence = ''--CT''\<rparr>] = Inr st \<and>
         alignmentLength st = 4 \<and> conservedPositions st = 2) \<and>
   column_conserved [\<lparr>id_rec = ''a'', sequence = ''A-CT''\<rparr>, \<lparr>id_rec = ''b'', sequence = ''a-GT''\<rparr>,
            \<lparr>id_rec = ''c'', sequence = ''--CT''\<rparr>] 0 = Inr True \<and>
   column_conserved [\<lparr>id_rec = ''a'', sequence = ''A-CT''\<rparr>, \<lparr>id_rec = ''b'', sequence = ''a-GT''\<rparr>,
            \<lparr>id_rec = ''c'', sequence = ''--CT''\<rparr>] 1 = Inr False"
proof -
  let ?rs = "[\<lparr>id_rec = ''a'', sequence = ''A-CT''\<rparr>, \<lparr>id_rec = ''b'', sequence = ''a-GT''\<rparr>,
              \<lparr>id_rec = ''c'', sequence = ''--CT''\<rparr>]"
  have h1: "2 \<le> length ?rs" by simp
  have h2: "\<forall>r\<in>set ?rs. length (sequence r) = 4" by simp
  have h3: "list_all (\<lambda>r. length (sequence r) = 4) ?rs" by simp
  have n: "length (filter (\<lambda>p. card (nongap_chars ?rs p) = 1) [0..<4]) = 2"
    by code_simp
  have c0: "card (nongap_chars ?rs 0) = 1" by code_simp
  have c1: "card (nongap_chars ?rs 1) \<noteq> 1" by code_simp
  note t = conserved_iff_one_nongap_char [OF h1 h2, of constructor]
  have col: "\<forall>p<4. column_conserved ?rs p = Inr (card (nongap_chars ?rs p) = 1)"
    using t by (elim exE conjE)
  have cc0: "column_conserved ?rs 0 = Inr True"
    using col [rule_format, of 0] c0 by simp
  have cc1: "column_conserved ?rs 1 = Inr False"
    using col [rule_format, of 1] c1 by simp
  have "\<exists>st. calculateMSAStats constructor ?rs = Inr st \<and> alignmentLength st = 4 \<and>
      conservedPositions st = 2"
    using t [unfolded n] apply (elim exE conjE) apply (intro exI conjI) apply assumption+ done
  then show ?thesis
    by (intro conjI h1 h3 cc0 cc1)
qed

section \<open>Properties of FASTA parsing\<close>

lemma parse_loop_records:
  "finish_parse (parse_loop ls seqs cur) =
     seqs @
     (case cur of
        None \<Rightarrow> []
      | Some c \<Rightarrow>
          [c\<lparr>sequence := sequence c @ concat (map trim (takeWhile (\<lambda>m. \<not> is_header m) ls))\<rparr>]) @
     spec_records trim ls"
proof (induction ls arbitrary: seqs cur)
  case Nil
  show ?case by (simp add: finish_parse_def split: option.splits)
next
  case (Cons l ls)
  show ?case
  proof (cases "is_header l")
    case True
    then show ?thesis
      using Cons.IH by (simp add: is_header_def Let_def split: option.splits)
  next
    case False
    then show ?thesis
      using Cons.IH by (cases cur) (simp_all add: is_header_def Let_def)
  qed
qed

lemma parseFASTA_spec_records: "parseFASTA t = spec_records trim (split_lines t)"
proof -
  have "parseFASTA t = finish_parse (parse_loop (split_lines t) [] None)"
    by (cases "parse_loop (split_lines t) [] None") (simp add: parseFASTA_def finish_parse_def split: option.splits)
  then show ?thesis
    by (simp add: parse_loop_records)
qed

lemma length_spec_records: "length (spec_records clean ls) = length (filter is_header ls)"
  by (induction ls) simp_all

lemma ids_spec_records:
  "map id_rec (spec_records clean ls) = map (\<lambda>l. drop 1 (trim l)) (filter is_header ls)"
  by (induction ls) simp_all

lemma trim_decompose:
  "\<exists>pre post. l = pre @ trim l @ post \<and> (\<forall>c\<in>set pre. js_whitespace c) \<and>
     (\<forall>c\<in>set post. js_whitespace c)"
proof -
  let ?m = "dropWhile js_whitespace l"
  have 1: "l = takeWhile js_whitespace l @ ?m" by simp
  have "?m = rev (takeWhile js_whitespace (rev ?m) @ dropWhile js_whitespace (rev ?m))"
    by (simp only: takeWhile_dropWhile_id rev_rev_ident)
  also have "\<dots> = rev (dropWhile js_whitespace (rev ?m)) @ rev (takeWhile js_whitespace (rev ?m))"
    by (simp only: rev_append)
  finally have 2: "?m = trim l @ rev (takeWhile js_whitespace (rev ?m))"
    by (simp only: trim_def)
  have "l = takeWhile js_whitespace l @ trim l @ rev (takeWhile js_whitespace (rev ?m))"
    using 1 2 by metis
  moreover have "\<forall>c\<in>set (takeWhile js_whitespace l). js_whitespace c"
    by (auto dest: set_takeWhileD)
  moreover have "\<forall>c\<in>set (rev (takeWhile js_whitespace (rev ?m))). js_whitespace c"
    by (auto dest: set_takeWhileD)
  ultimately show ?thesis by blast
qed

lemma strip_ws_trim:
  assumes "list_all (\<lambda>c. \<not> js_whitespace c) (trim l)"
  shows "strip_ws l = trim l"
proof -
  obtain pre post where l: "l = pre @ trim l @ post" and
    pre: "\<forall>c\<in>set pre. js_whitespace c" and post: "\<forall>c\<in>set post. js_whitespace c"
    using trim_decompose by blast
  have "strip_ws l = strip_ws pre @ strip_ws (trim l) @ strip_ws post"
    by (subst l) (simp add: strip_ws_def)
  moreover have "strip_ws pre = []" "strip_ws post = []"
    using pre post by (simp_all add: strip_ws_def)
  moreover have "strip_ws (trim l) = trim l"
    using assms by (simp add: strip_ws_def list_all_iff)
  ultimately show ?thesis by simp
qed

lemma spec_records_strip:
  "list_all (\<lambda>l. is_header l \<or> list_all (\<lambda>c. \<not> js_whitespace c) (trim l)) ls \<Longrightarrow>
   spec_records trim ls = spec_records strip_ws ls"
proof (induction ls)
  case Nil
  show ?case by simp
next
  case (Cons l ls)
  have "map trim (takeWhile (\<lambda>m. \<not> is_header m) ls) =
      map strip_ws (takeWhile (\<lambda>m. \<not> is_header m) ls)"
  proof (rule map_cong [OF refl])
    fix m assume m: "m \<in> set (takeWhile (\<lambda>m. \<not> is_header m) ls)"
    then have "m \<in> set ls" "\<not> is_header m"
      by (auto dest: set_takeWhileD)
    with Cons.prems have "list_all (\<lambda>c. \<not> js_whitespace c) (trim m)"
      by (auto simp: list_all_iff)
    then show "trim m = strip_ws m"
      by (simp add: strip_ws_trim)
  qed
  then have "concat (map trim (takeWhile (\<lambda>m. \<not> is_header m) ls)) =
      concat (map strip_ws (takeWhile (\<lambda>m. \<not> is_header m) ls))"
    by (rule arg_cong)
  then show ?case
    using Cons by simp
qed


text \<open>
  C7. \<^verbatim>\<open>parseFASTA\<close> returns one record per header line, in the order of the lines, with
  the identifiers of those lines; the sequence of a record is the concatenation of its
  trimmed non-header lines, which on a well-formed input is the concatenation of its
  non-header lines with all white space removed. An input without a header line gives the
  empty list. The function has no failing branch.
\<close>

theorem parseFASTA_one_record_per_header:
  "parseFASTA t = spec_records trim (split_lines t) \<and>
   length (parseFASTA t) = length (filter is_header (split_lines t)) \<and>
   map id_rec (parseFASTA t) = map (\<lambda>l. drop 1 (trim l)) (filter is_header (split_lines t)) \<and>
   (well_formed t \<longrightarrow> parseFASTA t = spec_records strip_ws (split_lines t)) \<and>
   (filter is_header (split_lines t) = [] \<longrightarrow> parseFASTA t = [])"
proof -
  have a: "parseFASTA t = spec_records trim (split_lines t)"
    by (rule parseFASTA_spec_records)
  have b: "length (parseFASTA t) = length (filter is_header (split_lines t))"
    by (simp add: a length_spec_records)
  have c: "map id_rec (parseFASTA t) =
      map (\<lambda>l. drop 1 (trim l)) (filter is_header (split_lines t))"
    by (simp add: a ids_spec_records)
  have d: "well_formed t \<longrightarrow> parseFASTA t = spec_records strip_ws (split_lines t)"
    using spec_records_strip [of "split_lines t"] by (simp add: a well_formed_def)
  have e: "filter is_header (split_lines t) = [] \<longrightarrow> parseFASTA t = []"
    using b by auto
  show ?thesis
    by (intro conjI a b c d e)
qed

theorem parseFASTA_one_record_per_header_witness:
  "well_formed (''>s1'' @ [CHR 0x0A] @ ''AC'' @ [CHR 0x0D, CHR 0x0A] @ ''GT'' @
                [CHR 0x0A, CHR 0x0A] @ ''>s2'' @ [CHR 0x0A] @ ''TT'') \<and>
   parseFASTA (''>s1'' @ [CHR 0x0A] @ ''AC'' @ [CHR 0x0D, CHR 0x0A] @ ''GT'' @
               [CHR 0x0A, CHR 0x0A] @ ''>s2'' @ [CHR 0x0A] @ ''TT'') =
     [\<lparr>id_rec = ''s1'', sequence = ''ACGT''\<rparr>, \<lparr>id_rec = ''s2'', sequence = ''TT''\<rparr>] \<and>
   filter is_header (split_lines (''ACGT'' @ [CHR 0x0A] @ ''TT'')) = [] \<and>
   parseFASTA (''ACGT'' @ [CHR 0x0A] @ ''TT'') = []"
proof -
  let ?t = "''>s1'' @ [CHR 0x0A] @ ''AC'' @ [CHR 0x0D, CHR 0x0A] @ ''GT'' @
            [CHR 0x0A, CHR 0x0A] @ ''>s2'' @ [CHR 0x0A] @ ''TT''"
  let ?u = "''ACGT'' @ [CHR 0x0A] @ ''TT''"
  have h1: "well_formed ?t" by code_simp
  have h2: "filter is_header (split_lines ?u) = []" by code_simp
  have r: "spec_records strip_ws (split_lines ?t) =
      [\<lparr>id_rec = ''s1'', sequence = ''ACGT''\<rparr>, \<lparr>id_rec = ''s2'', sequence = ''TT''\<rparr>]"
    by code_simp
  have "parseFASTA ?t = spec_records strip_ws (split_lines ?t)"
    using parseFASTA_one_record_per_header [of ?t, THEN conjunct2, THEN conjunct2,
        THEN conjunct2, THEN conjunct1, THEN mp, OF h1] .
  then have c1: "parseFASTA ?t =
      [\<lparr>id_rec = ''s1'', sequence = ''ACGT''\<rparr>, \<lparr>id_rec = ''s2'', sequence = ''TT''\<rparr>]"
    by (simp only: r)
  have c2: "parseFASTA ?u = []"
    using parseFASTA_one_record_per_header [of ?u, THEN conjunct2, THEN conjunct2,
        THEN conjunct2, THEN conjunct2, THEN mp, OF h2] .
  show ?thesis
    by (intro conjI h1 h2 c1 c2)
qed


text \<open>
  Outside the well-formed inputs: white space inside a sequence line stays in the
  sequence, since only the two ends of a line are trimmed.
\<close>

lemma parseFASTA_inner_whitespace:
  "parseFASTA (''>s'' @ [CHR 0x0A] @ ''A C '') = [\<lparr>id_rec = ''s'', sequence = ''A C''\<rparr>]"
  by code_simp

end
